theory Spec2Isabelle
  imports Complex_Main "HOL-Library.Word"
begin

section \<open>The random file writer of \<^verbatim>\<open>bincreator.py\<close>\<close>

text \<open>
  The program is one function, \<^verbatim>\<open>generate_random_file(filename, size_gb)\<close>, and one call
  of it at module level. It converts the size to a byte count, opens the file with mode
  \<^verbatim>\<open>'wb'\<close>, writes random chunks of at most 1 MiB until the count is reached, leaves the
  \<^verbatim>\<open>with\<close> block (which closes the file) and prints one line.

  The embedding makes the effects explicit. The function takes the world (the files, the
  standard output, the position in the system's entropy stream, the log of the calls of
  \<^verbatim>\<open>f.write\<close>) and returns the outcome together with the new world. What the operating
  system decides (whether a path can be opened, whether a write or the close fails, which
  random bytes are delivered) is read from an environment that the function never changes.
\<close>

subsection \<open>Python numbers\<close>

text \<open>
  \<^verbatim>\<open>size_gb\<close> is an \<^verbatim>\<open>int\<close> (the module's own call passes \<^verbatim>\<open>1\<close>) or a \<^verbatim>\<open>float\<close>
  (the docstring). A finite float is a dyadic rational and is carried here by its exact
  value; the infinities and NaN are values of their own.
\<close>

type_synonym byte = "8 word"

datatype pynum = PyInt int | PyFloat rat | PyInf | PyNegInf | PyNaN

datatype py_error = OverflowError | ValueError | OSError

text \<open>The largest finite double, \<open>(2\<^sup>5\<^sup>3 - 1) \<sqdot> 2\<^sup>9\<^sup>7\<^sup>1\<close>.\<close>

definition dbl_max :: rat where
  "dbl_max = (2 ^ 53 - 1) * 2 ^ 971"

text \<open>
  \<^verbatim>\<open>size_gb * (1024 ** 3)\<close>. On integers the product is exact. On a float the integer
  \<open>2\<^sup>3\<^sup>0\<close> is converted to a float without loss, and multiplying a double by a power of
  two changes its exponent only: the product is exact unless it leaves the range of the
  doubles, where IEEE 754 gives an infinity.
\<close>

fun mul_gib :: "pynum \<Rightarrow> pynum" where
  "mul_gib (PyInt n) = PyInt (n * 1024 ^ 3)"
| "mul_gib (PyFloat q) =
     (let p = q * 1024 ^ 3
      in if dbl_max < p then PyInf else if p < - dbl_max then PyNegInf else PyFloat p)"
| "mul_gib PyInf = PyInf"
| "mul_gib PyNegInf = PyNegInf"
| "mul_gib PyNaN = PyNaN"

text \<open>
  \<^verbatim>\<open>int(x)\<close>: the identity on an \<^verbatim>\<open>int\<close>, truncation towards zero on a finite float,
  \<^verbatim>\<open>OverflowError\<close> on an infinity and \<^verbatim>\<open>ValueError\<close> on NaN.
\<close>

fun py_int :: "pynum \<Rightarrow> py_error + int" where
  "py_int (PyInt n) = Inr n"
| "py_int (PyFloat q) = Inr (if 0 \<le> q then \<lfloor>q\<rfloor> else \<lceil>q\<rceil>)"
| "py_int PyInf = Inl OverflowError"
| "py_int PyNegInf = Inl OverflowError"
| "py_int PyNaN = Inl ValueError"

text \<open>The finite numbers and their exact values.\<close>

fun num_val :: "pynum \<Rightarrow> rat option" where
  "num_val (PyInt n) = Some (of_int n)"
| "num_val (PyFloat q) = Some q"
| "num_val PyInf = None"
| "num_val PyNegInf = None"
| "num_val PyNaN = None"

text \<open>\<^verbatim>\<open>x >= 0\<close>, which is false on NaN.\<close>

fun py_ge0 :: "pynum \<Rightarrow> bool" where
  "py_ge0 (PyInt n) = (0 \<le> n)"
| "py_ge0 (PyFloat q) = (0 \<le> q)"
| "py_ge0 PyInf = True"
| "py_ge0 PyNegInf = False"
| "py_ge0 PyNaN = False"

subsection \<open>The environment and the world\<close>

text \<open>
  \<open>open_ok\<close>: the paths that \<^verbatim>\<open>open(_, 'wb')\<close> can open. \<open>write_fault k\<close>: what happens to
  the call of \<^verbatim>\<open>f.write\<close> that follows \<open>k\<close> earlier ones: \<open>None\<close> when it succeeds,
  \<open>Some j\<close> when it raises \<^verbatim>\<open>OSError\<close> after at most \<open>j\<close> bytes of the chunk reached the
  file. \<open>close_ok\<close>: whether closing the file at the end of the \<^verbatim>\<open>with\<close> block succeeds.
  \<open>entropy\<close>: the stream of bytes that \<^verbatim>\<open>os.urandom\<close> delivers. \<open>float_repr\<close>: Python's
  \<^verbatim>\<open>str\<close> of a finite float, a built-in that is no part of the repository.
\<close>

record os_env =
  open_ok :: "string \<Rightarrow> bool"
  write_fault :: "nat \<Rightarrow> nat option"
  close_ok :: bool
  entropy :: "nat \<Rightarrow> byte"
  float_repr :: "rat \<Rightarrow> string"

text \<open>
  A file's content is what has been written through its handle (the buffer of Python's
  file object included).
\<close>

record world =
  files :: "string \<rightharpoonup> byte list"
  stdout :: "string list"
  entropy_pos :: nat
  write_log :: "byte list list"

text \<open>\<^verbatim>\<open>open(filename, 'wb')\<close>: creates the file or truncates it.\<close>

definition py_open :: "os_env \<Rightarrow> string \<Rightarrow> world \<Rightarrow> (py_error + unit) \<times> world" where
  "py_open env filename w =
     (if open_ok env filename
      then (Inr (), w\<lparr>files := (files w)(filename \<mapsto> [])\<rparr>)
      else (Inl OSError, w))"

text \<open>\<^verbatim>\<open>os.urandom(n)\<close>: the next \<open>n\<close> bytes of the stream; a negative \<open>n\<close> is refused.\<close>

definition os_urandom :: "os_env \<Rightarrow> int \<Rightarrow> world \<Rightarrow> (py_error + byte list) \<times> world" where
  "os_urandom env n w =
     (if n < 0 then (Inl ValueError, w)
      else (Inr (map (entropy env) [entropy_pos w ..< entropy_pos w + nat n]),
            w\<lparr>entropy_pos := entropy_pos w + nat n\<rparr>))"

definition append_file :: "string \<Rightarrow> byte list \<Rightarrow> world \<Rightarrow> world" where
  "append_file filename data w =
     w\<lparr>files := (files w)(filename \<mapsto>
          (case files w filename of None \<Rightarrow> [] | Some old \<Rightarrow> old) @ data)\<rparr>"

text \<open>\<^verbatim>\<open>f.write(data)\<close> on the handle of \<open>filename\<close>: the call is logged, then it appends.\<close>

definition f_write :: "os_env \<Rightarrow> string \<Rightarrow> byte list \<Rightarrow> world \<Rightarrow> (py_error + unit) \<times> world" where
  "f_write env filename data w =
     (let w1 = w\<lparr>write_log := write_log w @ [data]\<rparr>
      in case write_fault env (length (write_log w)) of
           None \<Rightarrow> (Inr (), append_file filename data w1)
         | Some j \<Rightarrow> (Inl OSError, append_file filename (take j data) w1))"

text \<open>\<^verbatim>\<open>print(line)\<close>: one more line on the standard output.\<close>

definition py_print :: "string \<Rightarrow> world \<Rightarrow> world" where
  "py_print line w = w\<lparr>stdout := stdout w @ [line]\<rparr>"

subsection \<open>Formatting the completion message\<close>

fun str_nat :: "nat \<Rightarrow> string" where
  "str_nat n =
     (if n < 10 then [''0123456789'' ! n]
      else str_nat (n div 10) @ [''0123456789'' ! (n mod 10)])"

definition str_int :: "int \<Rightarrow> string" where
  "str_int n = (if n < 0 then ''-'' @ str_nat (nat (- n)) else str_nat (nat n))"

fun py_str :: "os_env \<Rightarrow> pynum \<Rightarrow> string" where
  "py_str env (PyInt n) = str_int n"
| "py_str env (PyFloat q) = float_repr env q"
| "py_str env PyInf = ''inf''"
| "py_str env PyNegInf = ''-inf''"
| "py_str env PyNaN = ''nan''"

text \<open>\<^verbatim>\<open>f"File '{filename}' of {size_gb}GB has been created."\<close>\<close>

definition completion_message :: "os_env \<Rightarrow> string \<Rightarrow> pynum \<Rightarrow> string" where
  "completion_message env filename size_gb =
     ''File '' @ [CHR 0x27] @ filename @ [CHR 0x27] @ '' of '' @ py_str env size_gb
       @ ''GB has been created.''"

subsection \<open>The write loop\<close>

definition chunk_size :: int where
  "chunk_size = 1024 * 1024"

text \<open>
  One pass through the body of the \<^verbatim>\<open>while\<close> loop (lines 17 to 25), entered with
  \<open>bytes_written < target_bytes\<close>: it returns the new \<open>bytes_written\<close>, or the error that
  left the loop.
\<close>

definition loop_body ::
  "os_env \<Rightarrow> string \<Rightarrow> int \<Rightarrow> int \<Rightarrow> world \<Rightarrow> (py_error + int) \<times> world" where
  "loop_body env filename target_bytes bytes_written w =
     (let bytes_to_write = min chunk_size (target_bytes - bytes_written)
      in case os_urandom env bytes_to_write w of
           (Inl e, w1) \<Rightarrow> (Inl e, w1)
         | (Inr random_data, w1) \<Rightarrow>
             (case f_write env filename random_data w1 of
                (Inl e, w2) \<Rightarrow> (Inl e, w2)
              | (Inr u, w2) \<Rightarrow> (Inr (bytes_written + bytes_to_write), w2)))"

function write_loop ::
  "os_env \<Rightarrow> string \<Rightarrow> int \<Rightarrow> int \<Rightarrow> world \<Rightarrow> (py_error + int) \<times> world" where
  "write_loop env filename target_bytes bytes_written w =
     (if bytes_written < target_bytes
      then (case loop_body env filename target_bytes bytes_written w of
              (Inl e, w') \<Rightarrow> (Inl e, w')
            | (Inr b', w') \<Rightarrow> write_loop env filename target_bytes b' w')
      else (Inr bytes_written, w))"
  by pat_completeness auto
termination
  by (relation "measure (\<lambda>(env, filename, target_bytes, bytes_written, w).
                  nat (target_bytes - bytes_written))")
    (auto simp: loop_body_def Let_def chunk_size_def os_urandom_def
       split: if_splits sum.splits prod.splits)

text \<open>
  The same loop with a bound on the number of times its condition is evaluated: \<open>None\<close>
  when the bound is used up before the loop is left.
\<close>

fun write_loop_fuel ::
  "nat \<Rightarrow> os_env \<Rightarrow> string \<Rightarrow> int \<Rightarrow> int \<Rightarrow> world \<Rightarrow> ((py_error + int) \<times> world) option" where
  "write_loop_fuel 0 env filename target_bytes bytes_written w = None"
| "write_loop_fuel (Suc k) env filename target_bytes bytes_written w =
     (if bytes_written < target_bytes
      then (case loop_body env filename target_bytes bytes_written w of
              (Inl e, w') \<Rightarrow> Some (Inl e, w')
            | (Inr b', w') \<Rightarrow> write_loop_fuel k env filename target_bytes b' w')
      else Some (Inr bytes_written, w))"

text \<open>
  The states at the head of the loop (the value of \<open>bytes_written\<close> and the world each
  time the condition is evaluated), from a given first state.
\<close>

inductive loop_reach ::
  "os_env \<Rightarrow> string \<Rightarrow> int \<Rightarrow> int \<times> world \<Rightarrow> int \<times> world \<Rightarrow> bool"
  for env :: os_env and filename :: string and target_bytes :: int and s0 :: "int \<times> world" where
  reach_start: "loop_reach env filename target_bytes s0 s0"
| reach_step:
    "loop_reach env filename target_bytes s0 (bytes_written, w) \<Longrightarrow>
     bytes_written < target_bytes \<Longrightarrow>
     loop_body env filename target_bytes bytes_written w = (Inr b', w') \<Longrightarrow>
     loop_reach env filename target_bytes s0 (b', w')"

subsection \<open>The function\<close>

text \<open>
  An error inside the \<^verbatim>\<open>with\<close> block closes the file and propagates; an error of the
  closing itself propagates as well. Only a run that leaves the block normally prints.
\<close>

definition generate_random_file ::
  "os_env \<Rightarrow> string \<Rightarrow> pynum \<Rightarrow> world \<Rightarrow> (py_error + unit) \<times> world" where
  "generate_random_file env filename size_gb w =
     (case py_int (mul_gib size_gb) of
        Inl e \<Rightarrow> (Inl e, w)
      | Inr target_bytes \<Rightarrow>
          (case py_open env filename w of
             (Inl e, w1) \<Rightarrow> (Inl e, w1)
           | (Inr u, w1) \<Rightarrow>
               (case write_loop env filename target_bytes 0 w1 of
                  (Inl e, w2) \<Rightarrow> (Inl e, w2)
                | (Inr bytes_written, w2) \<Rightarrow>
                    if close_ok env
                    then (Inr (), py_print (completion_message env filename size_gb) w2)
                    else (Inl OSError, w2))))"

text \<open>The call at module level (line 29).\<close>

definition module_main :: "os_env \<Rightarrow> world \<Rightarrow> (py_error + unit) \<times> world" where
  "module_main env w = generate_random_file env ''random_1gb_file.bin'' (PyInt 1) w"

subsection \<open>Concrete environments and worlds\<close>

text \<open>
  An environment in which nothing fails, one whose disk is full at the first write (two
  bytes of the chunk still reach the file), and a world with no files and no output.
  Their rendering of floats is a placeholder: the examples print integers only.
\<close>

definition quiet_env :: os_env where
  "quiet_env = \<lparr>open_ok = (\<lambda>p. True), write_fault = (\<lambda>k. None), close_ok = True,
     entropy = (\<lambda>i. of_nat (7 * i + 3)), float_repr = (\<lambda>q. ''?'')\<rparr>"

definition full_disk_env :: os_env where
  "full_disk_env = quiet_env\<lparr>write_fault := (\<lambda>k. Some 2)\<rparr>"

definition empty_world :: world where
  "empty_world = \<lparr>files = Map.empty, stdout = [], entropy_pos = 0, write_log = []\<rparr>"

section \<open>Properties\<close>

subsection \<open>One pass through the loop body\<close>

lemma loop_body_progress:
  assumes "bytes_written < target_bytes"
    and "loop_body env filename target_bytes bytes_written w = (Inr b', w')"
  shows "bytes_written < b'" and "b' \<le> target_bytes"
  using assms
  by (auto simp: loop_body_def Let_def chunk_size_def os_urandom_def
      split: if_splits sum.splits prod.splits)

lemma chunk_size_pos: "0 < chunk_size"
  by (simp add: chunk_size_def)

lemma loop_body_Inr:
  assumes "bytes_written < target_bytes"
    and "loop_body env filename target_bytes bytes_written w = (Inr b', w')"
  shows "b' = bytes_written + min chunk_size (target_bytes - bytes_written)"
    and "write_fault env (length (write_log w)) = None"
    and "w' = append_file filename
           (map (entropy env) [entropy_pos w ..< entropy_pos w + nat (min chunk_size (target_bytes - bytes_written))])
           (w\<lparr>entropy_pos := entropy_pos w + nat (min chunk_size (target_bytes - bytes_written)),
              write_log := write_log w @ [map (entropy env) [entropy_pos w ..< entropy_pos w + nat (min chunk_size (target_bytes - bytes_written))]]\<rparr>)"
  using assms
  by (auto simp: loop_body_def Let_def os_urandom_def f_write_def
      split: if_splits sum.splits prod.splits option.splits)

lemma loop_body_stdout:
  "stdout (snd (loop_body env filename target_bytes bytes_written w)) = stdout w"
  by (simp add: loop_body_def Let_def os_urandom_def f_write_def append_file_def
      split: sum.splits prod.splits option.splits)

subsection \<open>The loop, one case at a time\<close>

declare write_loop.simps [simp del]

lemma write_loop_stop:
  "\<not> bytes_written < target_bytes \<Longrightarrow>
   write_loop env filename target_bytes bytes_written w = (Inr bytes_written, w)"
  by (simp add: write_loop.simps)

lemma write_loop_fail:
  "bytes_written < target_bytes \<Longrightarrow>
   loop_body env filename target_bytes bytes_written w = (Inl e, w1) \<Longrightarrow>
   write_loop env filename target_bytes bytes_written w = (Inl e, w1)"
  by (simp add: write_loop.simps)

lemma write_loop_step:
  "bytes_written < target_bytes \<Longrightarrow>
   loop_body env filename target_bytes bytes_written w = (Inr b1, w1) \<Longrightarrow>
   write_loop env filename target_bytes bytes_written w =
   write_loop env filename target_bytes b1 w1"
  by (simp add: write_loop.simps)

lemma write_loop_runs [case_names stop fail step]:
  assumes stop: "\<And>b w. \<not> b < target_bytes \<Longrightarrow> P b w"
    and fail: "\<And>b w e w1. b < target_bytes \<Longrightarrow>
                 loop_body env filename target_bytes b w = (Inl e, w1) \<Longrightarrow> P b w"
    and step: "\<And>b w b1 w1. b < target_bytes \<Longrightarrow>
                 loop_body env filename target_bytes b w = (Inr b1, w1) \<Longrightarrow>
                 P b1 w1 \<Longrightarrow> P b w"
  shows "P bytes_written w"
proof -
  have "nat (target_bytes - b) = n \<Longrightarrow> P b w" for n b w
  proof (induction n arbitrary: b w rule: less_induct)
    case (less n b w)
    show ?case
    proof (cases "b < target_bytes")
      case False
      then show ?thesis by (rule stop)
    next
      case True
      obtain r w1 where body: "loop_body env filename target_bytes b w = (r, w1)"
        by (cases "loop_body env filename target_bytes b w")
      show ?thesis
      proof (cases r)
        case (Inl e)
        with body have "loop_body env filename target_bytes b w = (Inl e, w1)"
          by simp
        with True show ?thesis by (rule fail)
      next
        case (Inr b1)
        with body have b1: "loop_body env filename target_bytes b w = (Inr b1, w1)"
          by simp
        from loop_body_progress(1) [OF True b1] True less.prems
        have "nat (target_bytes - b1) < n"
          by auto
        then have "P b1 w1" using less.IH by blast
        with True b1 show ?thesis by (rule step)
      qed
    qed
  qed
  then show ?thesis by blast
qed

lemma write_loop_stdout:
  "stdout (snd (write_loop env filename target_bytes bytes_written w)) = stdout w"
proof (induction bytes_written w rule: write_loop_runs [where target_bytes = target_bytes and env = env and filename = filename])
  case (stop b w)
  then show ?case by (simp add: write_loop_stop)
next
  case (fail b w e w1)
  with loop_body_stdout [of env filename target_bytes b w] show ?case
    by (simp add: write_loop_fail)
next
  case (step b w b1 w1)
  with loop_body_stdout [of env filename target_bytes b w] show ?case
    by (simp add: write_loop_step)
qed

subsection \<open>A run of the loop that ends normally\<close>

lemma files_append_file:
  "files w filename = Some bs \<Longrightarrow>
   files (append_file filename data w) = (files w)(filename \<mapsto> bs @ data)"
  by (simp add: append_file_def)

lemma write_loop_Inr:
  assumes "write_loop env filename target_bytes bytes_written w = (Inr b', w')"
    and "files w filename = Some bs"
  shows "b' = max bytes_written target_bytes
       \<and> entropy_pos w' = entropy_pos w + nat (target_bytes - bytes_written)
       \<and> files w' = (files w)(filename \<mapsto> bs @ map (entropy env)
             [entropy_pos w ..< entropy_pos w + nat (target_bytes - bytes_written)])"
  using assms
proof (induction bytes_written w arbitrary: bs
    rule: write_loop_runs [where target_bytes = target_bytes and env = env
      and filename = filename])
  case (stop b w)
  then show ?case by (auto simp: write_loop_stop)
next
  case (fail b w e w1)
  then show ?case by (simp add: write_loop_fail)
next
  case (step b w b1 w1)
  let ?n = "min chunk_size (target_bytes - b)"
  let ?p = "entropy_pos w"
  let ?data = "map (entropy env) [?p ..< ?p + nat ?n]"
  note body = loop_body_Inr [OF step.hyps(1,2)]
  have b1: "b1 = b + ?n" by (rule body(1))
  have n: "0 < ?n" "?n \<le> target_bytes - b"
    using step.hyps(1) chunk_size_pos by auto
  have pos1: "entropy_pos w1 = ?p + nat ?n"
    by (subst body(3)) (simp add: append_file_def)
  have files1: "files w1 = (files w)(filename \<mapsto> bs @ ?data)"
    by (subst body(3)) (simp add: append_file_def step.prems(2))
  then have f1: "files w1 filename = Some (bs @ ?data)" by simp
  have run: "write_loop env filename target_bytes b1 w1 = (Inr b', w')"
    using step.prems(1) write_loop_step [OF step.hyps(1,2)] by simp
  note ih = step.IH [OF run f1]
  have sum: "nat ?n + nat (target_bytes - b1) = nat (target_bytes - b)"
    using n b1 by linarith
  have split: "[?p ..< ?p + nat (target_bytes - b)]
      = [?p ..< ?p + nat ?n] @ [?p + nat ?n ..< ?p + nat ?n + nat (target_bytes - b1)]"
    using upt_add_eq_append [of ?p "?p + nat ?n" "nat (target_bytes - b1)"] sum
    by (simp add: add.assoc)
  have data: "map (entropy env) [?p ..< ?p + nat (target_bytes - b)]
      = ?data @ map (entropy env) [?p + nat ?n ..< ?p + nat ?n + nat (target_bytes - b1)]"
    by (simp only: split map_append)
  have "b' = max b target_bytes"
    using ih loop_body_progress [OF step.hyps(1,2)] step.hyps(1) by simp
  moreover have "entropy_pos w' = ?p + nat (target_bytes - b)"
    using ih pos1 sum by simp
  moreover have "files w' = (files w)(filename \<mapsto>
      bs @ map (entropy env) [?p ..< ?p + nat (target_bytes - b)])"
    using ih by (simp only: files1 pos1 data fun_upd_upd append_assoc)
  ultimately show ?case by simp
qed

lemma chunk_lengths_step:
  fixes r c :: int
  assumes "0 < c" and "0 < r"
  shows "replicate (nat (r div c)) (nat c) @ (if r mod c = 0 then [] else [nat (r mod c)])
       = nat (min c r) # (replicate (nat ((r - min c r) div c)) (nat c)
            @ (if (r - min c r) mod c = 0 then [] else [nat ((r - min c r) mod c)]))"
proof (cases "c \<le> r")
  case True
  then have m: "min c r = c" by simp
  have d: "(r - c) div c = r div c - 1" and md: "(r - c) mod c = r mod c"
    using div_add_self2 [of c "r - c"] mod_add_self2 [of "r - c" c] assms(1)
    by simp_all
  have "0 < r div c"
    using True assms(1) by (simp add: pos_imp_zdiv_pos_iff)
  then have "nat (r div c) = Suc (nat (r div c - 1))" by simp
  then show ?thesis by (simp add: m d md)
next
  case False
  then have m: "min c r = r" and "r div c = 0" and "r mod c = r"
    using assms by simp_all
  with assms show ?thesis by simp
qed

lemma write_loop_log:
  assumes "write_loop env filename target_bytes bytes_written w = (Inr b', w')"
    and "bytes_written \<le> target_bytes"
  shows "\<exists>cs. write_log w' = write_log w @ cs
       \<and> map length cs
           = replicate (nat ((target_bytes - bytes_written) div chunk_size)) (nat chunk_size)
             @ (if (target_bytes - bytes_written) mod chunk_size = 0 then []
                else [nat ((target_bytes - bytes_written) mod chunk_size)])"
  using assms
proof (induction bytes_written w
    rule: write_loop_runs [where target_bytes = target_bytes and env = env
      and filename = filename])
  case (stop b w)
  then have "b = target_bytes" by simp
  with stop show ?case by (simp add: write_loop_stop)
next
  case (fail b w e w1)
  then show ?case by (simp add: write_loop_fail)
next
  case (step b w b1 w1)
  let ?n = "min chunk_size (target_bytes - b)"
  let ?data = "map (entropy env) [entropy_pos w ..< entropy_pos w + nat ?n]"
  note body = loop_body_Inr [OF step.hyps(1,2)]
  have b1: "b1 = b + ?n" by (rule body(1))
  have log1: "write_log w1 = write_log w @ [?data]"
    by (subst body(3)) (simp add: append_file_def)
  have run: "write_loop env filename target_bytes b1 w1 = (Inr b', w')"
    using step.prems(1) write_loop_step [OF step.hyps(1,2)] by simp
  from step.IH [OF run loop_body_progress(2) [OF step.hyps(1,2)]]
  obtain cs where cs: "write_log w' = write_log w1 @ cs"
    and lens: "map length cs
      = replicate (nat ((target_bytes - b1) div chunk_size)) (nat chunk_size)
        @ (if (target_bytes - b1) mod chunk_size = 0 then []
           else [nat ((target_bytes - b1) mod chunk_size)])"
    by blast
  have r1: "target_bytes - b1 = (target_bytes - b) - ?n"
    using b1 by simp
  have "write_log w' = write_log w @ (?data # cs)"
    using cs log1 by simp
  moreover have "map length (?data # cs)
      = replicate (nat ((target_bytes - b) div chunk_size)) (nat chunk_size)
        @ (if (target_bytes - b) mod chunk_size = 0 then []
           else [nat ((target_bytes - b) mod chunk_size)])"
    using step.hyps(1)
    by (subst chunk_lengths_step [OF chunk_size_pos]) (simp_all add: lens r1)
  ultimately show ?case by blast
qed

subsection \<open>The byte count\<close>

lemma target_bytes_nonneg:
  assumes "num_val size_gb = Some q" and "0 \<le> q"
    and "py_int (mul_gib size_gb) = Inr target_bytes"
  shows "target_bytes = \<lfloor>q * 1024 ^ 3\<rfloor>"
proof (cases size_gb)
  case (PyInt n)
  with assms have "q = of_int n" and "target_bytes = n * 1024 ^ 3" by simp_all
  moreover have "(of_int n :: rat) * 1024 ^ 3 = of_int (n * 1024 ^ 3)" by simp
  ultimately show ?thesis by (simp only: floor_of_int)
next
  case (PyFloat q')
  with assms have "q' = q" by simp
  with assms PyFloat show ?thesis
    by (auto simp: Let_def split: if_splits)
qed (use assms in simp_all)



subsection \<open>A call that returns normally\<close>

lemma generate_random_file_Inr:
  assumes "generate_random_file env filename size_gb w = (Inr (), w')"
  shows "\<exists>target_bytes w2.
           py_int (mul_gib size_gb) = Inr target_bytes
         \<and> open_ok env filename \<and> close_ok env
         \<and> write_loop env filename target_bytes 0 (w\<lparr>files := (files w)(filename \<mapsto> [])\<rparr>)
             = (Inr (max 0 target_bytes), w2)
         \<and> w' = py_print (completion_message env filename size_gb) w2"
proof -
  from assms obtain target_bytes where t: "py_int (mul_gib size_gb) = Inr target_bytes"
    by (auto simp: generate_random_file_def split: sum.splits)
  from assms t have op: "open_ok env filename"
    by (auto simp: generate_random_file_def py_open_def split: if_splits)
  let ?w1 = "w\<lparr>files := (files w)(filename \<mapsto> [])\<rparr>"
  obtain r w2 where run: "write_loop env filename target_bytes 0 ?w1 = (r, w2)"
    by (cases "write_loop env filename target_bytes 0 ?w1")
  from assms t op run obtain b where r: "r = Inr b"
    by (cases r) (auto simp: generate_random_file_def py_open_def)
  from assms t op run r have cl: "close_ok env"
    and w': "w' = py_print (completion_message env filename size_gb) w2"
    by (auto simp: generate_random_file_def py_open_def split: if_splits)
  have "files ?w1 filename = Some []" by simp
  from write_loop_Inr [OF run [unfolded r] this] have "b = max 0 target_bytes" by simp
  with t op cl run r w' show ?thesis by blast
qed

lemma generate_random_file_content:
  assumes "generate_random_file env filename size_gb w = (Inr (), w')"
    and "py_int (mul_gib size_gb) = Inr target_bytes"
  shows "files w' filename
       = Some (map (entropy env) [entropy_pos w ..< entropy_pos w + nat target_bytes])"
proof -
  from generate_random_file_Inr [OF assms(1)] assms(2)
  obtain w2 where
    run: "write_loop env filename target_bytes 0 (w\<lparr>files := (files w)(filename \<mapsto> [])\<rparr>)
             = (Inr (max 0 target_bytes), w2)"
    and w': "w' = py_print (completion_message env filename size_gb) w2"
    by auto
  have "files (w\<lparr>files := (files w)(filename \<mapsto> [])\<rparr>) filename = Some []" by simp
  from write_loop_Inr [OF run this] w' show ?thesis
    by (simp add: py_print_def)
qed

text \<open>
  C1. A call with a non-negative size that returns normally leaves at the path a file of
  exactly \<open>\<lfloor>size_gb \<sqdot> 1024\<^sup>3\<rfloor>\<close> bytes. (The size is then a finite number: on
  the float infinity the conversion to a byte count raises, and the call does not return
  normally.)
\<close>

theorem file_length_is_floor:
  assumes "generate_random_file env filename size_gb w = (Inr (), w')"
    and "py_ge0 size_gb"
  shows "\<exists>q bs. num_val size_gb = Some q \<and> files w' filename = Some bs
               \<and> int (length bs) = \<lfloor>q * 1024 ^ 3\<rfloor>"
proof -
  from generate_random_file_Inr [OF assms(1)]
  obtain target_bytes where t: "py_int (mul_gib size_gb) = Inr target_bytes"
    by blast
  then obtain q where q: "num_val size_gb = Some q"
    by (cases size_gb) simp_all
  with assms(2) have "0 \<le> q" by (cases size_gb) auto
  from target_bytes_nonneg [OF q this t] have fl: "target_bytes = \<lfloor>q * 1024 ^ 3\<rfloor>" .
  with \<open>0 \<le> q\<close> have "0 \<le> target_bytes" by simp
  with generate_random_file_content [OF assms(1) t] q fl show ?thesis by simp
qed

theorem file_length_is_floor_witness:
  "\<exists>w'. generate_random_file quiet_env ''out.bin'' (PyFloat (1 / 2 ^ 28)) empty_world = (Inr (), w')
       \<and> py_ge0 (PyFloat (1 / 2 ^ 28))
       \<and> (\<exists>q bs. num_val (PyFloat (1 / 2 ^ 28)) = Some q \<and> files w' ''out.bin'' = Some bs
               \<and> int (length bs) = \<lfloor>q * 1024 ^ 3\<rfloor>)"
proof -
  have run: "generate_random_file quiet_env ''out.bin'' (PyFloat (1 / 2 ^ 28)) empty_world
      = (Inr (), snd (generate_random_file quiet_env ''out.bin'' (PyFloat (1 / 2 ^ 28)) empty_world))"
    by (simp add: generate_random_file_def dbl_max_def py_open_def quiet_env_def empty_world_def
        write_loop.simps loop_body_def chunk_size_def os_urandom_def f_write_def Let_def
        append_file_def)
  have ge: "py_ge0 (PyFloat (1 / 2 ^ 28))" by simp
  from file_length_is_floor [OF run ge] run ge show ?thesis by blast
qed

subsection \<open>Sizes that ask for no bytes\<close>

lemma dbl_max_pos: "0 < dbl_max"
  by (simp add: dbl_max_def)

lemma generate_random_file_no_bytes:
  assumes "py_int (mul_gib size_gb) = Inr target_bytes" and "target_bytes \<le> 0"
    and "open_ok env filename" and "close_ok env"
  shows "generate_random_file env filename size_gb w
       = (Inr (), py_print (completion_message env filename size_gb)
                    (w\<lparr>files := (files w)(filename \<mapsto> [])\<rparr>))"
  using assms
  by (simp add: generate_random_file_def py_open_def write_loop_stop)

text \<open>
  C3. With size 0 (the integer or the float), on a path that can be opened and closed,
  the call returns normally; the file exists and is empty; the loop is left the first
  time its condition is evaluated, so \<^verbatim>\<open>f.write\<close> and \<^verbatim>\<open>os.urandom\<close> are never called.
\<close>

theorem zero_size_empty_file:
  assumes "num_val size_gb = Some 0" and "open_ok env filename" and "close_ok env"
  shows "\<exists>w'. generate_random_file env filename size_gb w = (Inr (), w')
       \<and> files w' filename = Some []
       \<and> write_log w' = write_log w
       \<and> entropy_pos w' = entropy_pos w
       \<and> py_int (mul_gib size_gb) = Inr 0
       \<and> write_loop_fuel 1 env filename 0 0 (w\<lparr>files := (files w)(filename \<mapsto> [])\<rparr>)
           = Some (Inr 0, w\<lparr>files := (files w)(filename \<mapsto> [])\<rparr>)"
proof -
  from assms(1) have "size_gb = PyInt 0 \<or> size_gb = PyFloat 0"
    by (cases size_gb) simp_all
  then have t: "py_int (mul_gib size_gb) = Inr 0"
    using dbl_max_pos by (auto simp: Let_def)
  from generate_random_file_no_bytes [OF t _ assms(2,3)] t show ?thesis
    by (simp add: py_print_def)
qed

theorem zero_size_empty_file_witness:
  "num_val (PyInt 0) = Some 0 \<and> open_ok quiet_env ''out.bin'' \<and> close_ok quiet_env
   \<and> fst (generate_random_file quiet_env ''out.bin'' (PyInt 0)
            (empty_world\<lparr>files := [''out.bin'' \<mapsto> [1, 2, 3]]\<rparr>)) = Inr ()
   \<and> files (snd (generate_random_file quiet_env ''out.bin'' (PyInt 0)
            (empty_world\<lparr>files := [''out.bin'' \<mapsto> [1, 2, 3]]\<rparr>))) ''out.bin'' = Some []
   \<and> write_log (snd (generate_random_file quiet_env ''out.bin'' (PyInt 0)
            (empty_world\<lparr>files := [''out.bin'' \<mapsto> [1, 2, 3]]\<rparr>))) = []"
proof -
  have 1: "num_val (PyInt 0) = Some 0" by simp
  have 2: "open_ok quiet_env ''out.bin''" by (simp add: quiet_env_def)
  have 3: "close_ok quiet_env" by (simp add: quiet_env_def)
  from zero_size_empty_file [OF 1 2 3, of "empty_world\<lparr>files := [''out.bin'' \<mapsto> [1, 2, 3]]\<rparr>"]
  show ?thesis using 1 2 3 by (auto simp: empty_world_def)
qed

subsection \<open>Negative sizes\<close>










subsection \<open>The chunks of a call that returns normally\<close>

lemma generate_random_file_log:
  assumes "generate_random_file env filename size_gb w = (Inr (), w')"
    and "py_int (mul_gib size_gb) = Inr target_bytes" and "0 \<le> target_bytes"
  shows "\<exists>chunks. write_log w' = write_log w @ chunks
       \<and> map length chunks
           = replicate (nat (target_bytes div chunk_size)) (nat chunk_size)
             @ (if target_bytes mod chunk_size = 0 then []
                else [nat (target_bytes mod chunk_size)])"
proof -
  from generate_random_file_Inr [OF assms(1)] assms(2)
  obtain w2 where
    run: "write_loop env filename target_bytes 0 (w\<lparr>files := (files w)(filename \<mapsto> [])\<rparr>)
             = (Inr (max 0 target_bytes), w2)"
    and w': "w' = py_print (completion_message env filename size_gb) w2"
    by auto
  from write_loop_log [OF run assms(3)]
  obtain cs where "write_log w2 = write_log w @ cs"
    and "map length cs
      = replicate (nat (target_bytes div chunk_size)) (nat chunk_size)
        @ (if target_bytes mod chunk_size = 0 then []
           else [nat (target_bytes mod chunk_size)])"
    by (auto split: if_splits)
  moreover have "write_log w' = write_log w2"
    by (simp add: w' py_print_def)
  ultimately show ?thesis by (intro exI [of _ cs]) simp
qed

lemma loop_body_no_fault:
  assumes "bytes_written < target_bytes"
    and "write_fault env (length (write_log w)) = None"
  shows "\<exists>b' w'. loop_body env filename target_bytes bytes_written w = (Inr b', w')"
  using assms chunk_size_pos
  by (simp add: loop_body_def Let_def os_urandom_def f_write_def)

lemma write_loop_no_fault:
  assumes "\<forall>k. write_fault env k = None"
  shows "\<exists>b' w'. write_loop env filename target_bytes bytes_written w = (Inr b', w')"
proof (induction bytes_written w
    rule: write_loop_runs [where target_bytes = target_bytes and env = env
      and filename = filename])
  case (stop b w)
  then show ?case by (simp add: write_loop_stop)
next
  case (fail b w e w1)
  with loop_body_no_fault [of b target_bytes env w filename] assms show ?case
    by simp
next
  case (step b w b1 w1)
  then show ?case by (simp add: write_loop_step)
qed

lemma generate_random_file_no_fault:
  assumes "py_int (mul_gib size_gb) = Inr target_bytes"
    and "open_ok env filename" and "close_ok env" and "\<forall>k. write_fault env k = None"
  shows "\<exists>w'. generate_random_file env filename size_gb w = (Inr (), w')"
proof -
  from write_loop_no_fault [OF assms(4)]
  obtain b' w2 where
    "write_loop env filename target_bytes 0 (w\<lparr>files := (files w)(filename \<mapsto> [])\<rparr>)
       = (Inr b', w2)"
    by blast
  with assms(1-3) show ?thesis
    by (simp add: generate_random_file_def py_open_def)
qed

lemma ceiling_div_chunk:
  fixes t c :: int
  assumes "0 < c"
  shows "\<lceil>(of_int t :: rat) / of_int c\<rceil> = t div c + (if t mod c = 0 then 0 else 1)"
proof -
  have "\<lceil>(of_int t :: rat) / of_int c\<rceil> = - ((- t) div c)"
    by (rule ceiling_divide_eq_div)
  also have "\<dots> = t div c + (if t mod c = 0 then 0 else 1)"
    using assms by (simp add: zdiv_zminus1_eq_if)
  finally show ?thesis .
qed

text \<open>
  C4. A call that returns normally with a positive byte count \<open>target_bytes\<close> has made
  exactly \<open>\<lceil>target_bytes / chunk_size\<rceil>\<close> calls of \<^verbatim>\<open>f.write\<close>. Every chunk but the
  last has \<open>chunk_size\<close> bytes. When \<open>chunk_size\<close> divides \<open>target_bytes\<close> there are
  \<open>target_bytes div chunk_size\<close> chunks, all of \<open>chunk_size\<close> bytes; otherwise the last
  chunk has \<open>target_bytes mod chunk_size\<close> bytes; and when \<open>target_bytes < chunk_size\<close>
  there is one chunk, of \<open>target_bytes\<close> bytes.
\<close>

theorem chunk_writes:
  assumes "generate_random_file env filename size_gb w = (Inr (), w')"
    and "py_int (mul_gib size_gb) = Inr target_bytes" and "0 < target_bytes"
  shows "\<exists>chunks. write_log w' = write_log w @ chunks
       \<and> int (length chunks) = \<lceil>(of_int target_bytes :: rat) / of_int chunk_size\<rceil>
       \<and> (\<forall>i. Suc i < length chunks \<longrightarrow> int (length (chunks ! i)) = chunk_size)
       \<and> (chunk_size dvd target_bytes \<longrightarrow>
            int (length chunks) = target_bytes div chunk_size
            \<and> (\<forall>c \<in> set chunks. int (length c) = chunk_size))
       \<and> (\<not> chunk_size dvd target_bytes \<longrightarrow>
            int (length (last chunks)) = target_bytes mod chunk_size)
       \<and> (target_bytes < chunk_size \<longrightarrow> map length chunks = [nat target_bytes])"
proof -
  let ?c = chunk_size
  let ?t = target_bytes
  let ?full = "replicate (nat (?t div ?c)) (nat ?c)"
  let ?rest = "if ?t mod ?c = 0 then [] else [nat (?t mod ?c)]"
  from assms(3) have t0: "0 \<le> ?t" by simp
  from generate_random_file_log [OF assms(1,2) t0]
  obtain chunks where log: "write_log w' = write_log w @ chunks"
    and lens: "map length chunks = ?full @ ?rest"
    by blast
  have c: "0 < ?c" by (rule chunk_size_pos)
  have d0: "0 \<le> ?t div ?c" using t0 c by (simp add: pos_imp_zdiv_nonneg_iff)
  have m0: "0 \<le> ?t mod ?c" using c by simp
  have len: "length chunks = nat (?t div ?c) + (if ?t mod ?c = 0 then 0 else 1)"
    using arg_cong [OF lens, of length] by simp
  have count: "int (length chunks) = \<lceil>(of_int ?t :: rat) / of_int ?c\<rceil>"
    using len d0 by (simp add: ceiling_div_chunk [OF c])
  have inner: "int (length (chunks ! i)) = ?c" if "Suc i < length chunks" for i
  proof -
    from that len have i: "i < nat (?t div ?c)" by (simp split: if_splits)
    from that have "length (chunks ! i) = map length chunks ! i" by simp
    also have "\<dots> = nat ?c" using i by (simp add: lens nth_append)
    finally show ?thesis using c by simp
  qed
  have whole: "int (length chunks) = ?t div ?c \<and> (\<forall>x \<in> set chunks. int (length x) = ?c)"
    if "?c dvd ?t"
  proof -
    from that have m: "?t mod ?c = 0" by simp
    with lens have l: "map length chunks = ?full" by simp
    have "length x = nat ?c" if "x \<in> set chunks" for x
    proof -
      from that have "length x \<in> set (map length chunks)" by simp
      then show ?thesis by (simp add: l)
    qed
    with len m d0 c show ?thesis by simp
  qed
  have part: "int (length (last chunks)) = ?t mod ?c" if "\<not> ?c dvd ?t"
  proof -
    from that have m: "?t mod ?c \<noteq> 0" by (simp add: dvd_eq_mod_eq_0)
    with len have ne: "chunks \<noteq> []" by auto
    then have "length (last chunks) = last (map length chunks)" by (simp add: last_map)
    also have "\<dots> = nat (?t mod ?c)" using m by (simp add: lens)
    finally show ?thesis using m0 by simp
  qed
  have small: "map length chunks = [nat ?t]" if "?t < ?c"
  proof -
    from that t0 have "?t div ?c = 0" and "?t mod ?c = ?t" by simp_all
    with lens assms(3) show ?thesis by simp
  qed
  show ?thesis
  proof (intro exI [of _ chunks] conjI allI impI)
    show "write_log w' = write_log w @ chunks" by (rule log)
    show "int (length chunks) = \<lceil>(of_int ?t :: rat) / of_int ?c\<rceil>" by (rule count)
    show "int (length (chunks ! i)) = ?c" if "Suc i < length chunks" for i
      using that by (rule inner)
    show "int (length chunks) = ?t div ?c" if "?c dvd ?t"
      using whole [OF that] by simp
    show "\<forall>x \<in> set chunks. int (length x) = ?c" if "?c dvd ?t"
      using whole [OF that] by simp
    show "int (length (last chunks)) = ?t mod ?c" if "\<not> ?c dvd ?t"
      using that by (rule part)
    show "map length chunks = [nat ?t]" if "?t < ?c"
      using that by (rule small)
  qed
qed

theorem chunk_writes_witness:
  "(\<exists>w'. generate_random_file quiet_env ''out.bin'' (PyFloat (1 / 2 ^ 28)) empty_world = (Inr (), w')
       \<and> map length (write_log w') = [4])
   \<and> (\<exists>w'. module_main quiet_env empty_world = (Inr (), w')
       \<and> length (write_log w') = 1024
       \<and> map length (write_log w') = replicate 1024 1048576)"
proof -
  have q: "open_ok quiet_env f" "close_ok quiet_env" "\<forall>k. write_fault quiet_env k = None" for f
    by (simp_all add: quiet_env_def)
  have t1: "py_int (mul_gib (PyFloat (1 / 2 ^ 28))) = Inr 4"
    by (simp add: dbl_max_def)
  from generate_random_file_no_fault [OF t1 q]
  obtain w1 where run1:
    "generate_random_file quiet_env ''out.bin'' (PyFloat (1 / 2 ^ 28)) empty_world = (Inr (), w1)"
    by blast
  from chunk_writes [OF run1 t1]
  have "map length (write_log w1) = [4]"
    by (auto simp: empty_world_def chunk_size_def)
  with run1 have first: "\<exists>w'. generate_random_file quiet_env ''out.bin'' (PyFloat (1 / 2 ^ 28))
      empty_world = (Inr (), w') \<and> map length (write_log w') = [4]"
    by simp
  have t2: "py_int (mul_gib (PyInt 1)) = Inr 1073741824" by simp
  from generate_random_file_no_fault [OF t2 q]
  obtain w2 where run2:
    "generate_random_file quiet_env ''random_1gb_file.bin'' (PyInt 1) empty_world = (Inr (), w2)"
    by blast
  from chunk_writes [OF run2 t2]
  obtain chunks where log: "write_log w2 = chunks"
    and n: "int (length chunks) = 1024"
    and all: "\<forall>c \<in> set chunks. int (length c) = 1048576"
    by (auto simp: empty_world_def chunk_size_def)
  from all have "\<forall>x \<in> set (map length chunks). x = 1048576" by auto
  then have "map length chunks = replicate (length (map length chunks)) 1048576"
    by (simp only: replicate_length_same)
  with n have "map length chunks = replicate 1024 1048576" by simp
  with run2 log n have "\<exists>w'. module_main quiet_env empty_world = (Inr (), w')
       \<and> length (write_log w') = 1024
       \<and> map length (write_log w') = replicate 1024 1048576"
    by (simp add: module_main_def)
  with first show ?thesis by (rule conjI)
qed

subsection \<open>Overwriting, the completion line, and the length of two runs\<close>

text \<open>
  C5. When the file at the path already exists, a call with a non-negative size that
  returns normally leaves a file of exactly \<open>\<lfloor>size_gb \<sqdot> 1024\<^sup>3\<rfloor>\<close> bytes, whatever
  the old content was: \<^verbatim>\<open>open\<close> truncates it, and the new content is the bytes drawn
  from the entropy stream during this call and nothing else.
\<close>

theorem rerun_overwrites:
  assumes "files w filename = Some old"
    and "generate_random_file env filename size_gb w = (Inr (), w')"
    and "py_ge0 size_gb"
  shows "\<exists>q bs. num_val size_gb = Some q \<and> files w' filename = Some bs
       \<and> int (length bs) = \<lfloor>q * 1024 ^ 3\<rfloor>
       \<and> bs = map (entropy env) [entropy_pos w ..< entropy_pos w + length bs]
       \<and> files (snd (py_open env filename w)) filename = Some []"
proof -
  from generate_random_file_Inr [OF assms(2)]
  obtain target_bytes where t: "py_int (mul_gib size_gb) = Inr target_bytes"
    and op: "open_ok env filename"
    by blast
  then obtain q where q: "num_val size_gb = Some q"
    by (cases size_gb) simp_all
  with assms(3) have "0 \<le> q" by (cases size_gb) auto
  from target_bytes_nonneg [OF q this t] have fl: "target_bytes = \<lfloor>q * 1024 ^ 3\<rfloor>" .
  with \<open>0 \<le> q\<close> have "0 \<le> target_bytes" by simp
  let ?bs = "map (entropy env) [entropy_pos w ..< entropy_pos w + nat target_bytes]"
  have "files w' filename = Some ?bs"
    by (rule generate_random_file_content [OF assms(2) t])
  moreover have "int (length ?bs) = \<lfloor>q * 1024 ^ 3\<rfloor>"
    using fl \<open>0 \<le> target_bytes\<close> by simp
  moreover have "?bs = map (entropy env) [entropy_pos w ..< entropy_pos w + length ?bs]"
    by simp
  moreover have "files (snd (py_open env filename w)) filename = Some []"
    using op by (simp add: py_open_def)
  ultimately show ?thesis using q by blast
qed

theorem rerun_overwrites_witness:
  "\<exists>w'. files (empty_world\<lparr>files := [''out.bin'' \<mapsto> [1, 2, 3]]\<rparr>) ''out.bin'' = Some [1, 2, 3]
     \<and> generate_random_file quiet_env ''out.bin'' (PyFloat (1 / 2 ^ 29))
          (empty_world\<lparr>files := [''out.bin'' \<mapsto> [1, 2, 3]]\<rparr>) = (Inr (), w')
     \<and> py_ge0 (PyFloat (1 / 2 ^ 29))
     \<and> files w' ''out.bin'' = Some [3, 10]"
proof -
  let ?w = "empty_world\<lparr>files := [''out.bin'' \<mapsto> [1, 2, 3]]\<rparr>"
  have q: "open_ok quiet_env f" "close_ok quiet_env" "\<forall>k. write_fault quiet_env k = None" for f
    by (simp_all add: quiet_env_def)
  have old: "files ?w ''out.bin'' = Some [1, 2, 3]" by simp
  have t: "py_int (mul_gib (PyFloat (1 / 2 ^ 29))) = Inr 2" by (simp add: dbl_max_def)
  have ge: "py_ge0 (PyFloat (1 / 2 ^ 29))" by simp
  from generate_random_file_no_fault [OF t q]
  obtain w' where run:
    "generate_random_file quiet_env ''out.bin'' (PyFloat (1 / 2 ^ 29)) ?w = (Inr (), w')"
    by blast
  from rerun_overwrites [OF old run ge]
  obtain q bs where q: "num_val (PyFloat (1 / 2 ^ 29)) = Some q"
    and bs: "files w' ''out.bin'' = Some bs"
    and len: "int (length bs) = \<lfloor>q * 1024 ^ 3\<rfloor>"
    and fresh: "bs = map (entropy quiet_env) [entropy_pos ?w ..< entropy_pos ?w + length bs]"
    by blast
  from q have "q = 1 / 2 ^ 29" by simp
  with len have "length bs = 2" by simp
  with fresh have "bs = [3, 10]"
    by (simp add: quiet_env_def empty_world_def upt_rec)
  with old run ge bs show ?thesis by simp
qed

lemma generate_random_file_stdout:
  "stdout (snd (generate_random_file env filename size_gb w))
   = (if fst (generate_random_file env filename size_gb w) = Inr ()
      then stdout w @ [completion_message env filename size_gb] else stdout w)"
proof (cases "py_int (mul_gib size_gb)")
  case (Inl e)
  then show ?thesis by (simp add: generate_random_file_def)
next
  case (Inr target_bytes)
  show ?thesis
  proof (cases "open_ok env filename")
    case False
    with Inr show ?thesis by (simp add: generate_random_file_def py_open_def)
  next
    case True
    let ?w1 = "w\<lparr>files := (files w)(filename \<mapsto> [])\<rparr>"
    obtain r w2 where run: "write_loop env filename target_bytes 0 ?w1 = (r, w2)"
      by (cases "write_loop env filename target_bytes 0 ?w1")
    from write_loop_stdout [of env filename target_bytes 0 ?w1] run
    have "stdout w2 = stdout w" by simp
    with Inr True run show ?thesis
      by (cases r) (simp_all add: generate_random_file_def py_open_def py_print_def)
  qed
qed

lemma generate_random_file_entropy_pos:
  assumes "generate_random_file env filename size_gb w = (Inr (), w')"
    and "py_int (mul_gib size_gb) = Inr target_bytes"
  shows "entropy_pos w' = entropy_pos w + nat target_bytes"
proof -
  from generate_random_file_Inr [OF assms(1)] assms(2)
  obtain w2 where
    run: "write_loop env filename target_bytes 0 (w\<lparr>files := (files w)(filename \<mapsto> [])\<rparr>)
             = (Inr (max 0 target_bytes), w2)"
    and w': "w' = py_print (completion_message env filename size_gb) w2"
    by auto
  have "files (w\<lparr>files := (files w)(filename \<mapsto> [])\<rparr>) filename = Some []" by simp
  from write_loop_Inr [OF run this] w' show ?thesis
    by (simp add: py_print_def)
qed

text \<open>
  C6. A call that returns normally has appended exactly one line to the standard output,
  \<^verbatim>\<open>File '<filename>' of <size_gb>GB has been created.\<close>, and it did so by printing in
  the world that the finished loop left. A call that raises (in the conversion of the
  size, in \<^verbatim>\<open>open\<close>, in a write or in the closing of the file) leaves the standard
  output as it was.
\<close>

theorem completion_line:
  "(\<forall>w'. generate_random_file env filename size_gb w = (Inr (), w') \<longrightarrow>
      stdout w' = stdout w @ [''File '' @ [CHR 0x27] @ filename @ [CHR 0x27] @ '' of ''
                               @ py_str env size_gb @ ''GB has been created.'']
      \<and> (\<exists>target_bytes w2.
            write_loop env filename target_bytes 0 (w\<lparr>files := (files w)(filename \<mapsto> [])\<rparr>)
              = (Inr (max 0 target_bytes), w2)
          \<and> w' = py_print (completion_message env filename size_gb) w2))
   \<and> (\<forall>e w'. generate_random_file env filename size_gb w = (Inl e, w') \<longrightarrow>
        stdout w' = stdout w)"
proof (intro conjI allI impI)
  fix w'
  assume run: "generate_random_file env filename size_gb w = (Inr (), w')"
  from generate_random_file_stdout [of env filename size_gb w] run
  show "stdout w' = stdout w @ [''File '' @ [CHR 0x27] @ filename @ [CHR 0x27] @ '' of ''
                               @ py_str env size_gb @ ''GB has been created.'']"
    by (simp add: completion_message_def)
  from generate_random_file_Inr [OF run]
  show "\<exists>target_bytes w2.
            write_loop env filename target_bytes 0 (w\<lparr>files := (files w)(filename \<mapsto> [])\<rparr>)
              = (Inr (max 0 target_bytes), w2)
          \<and> w' = py_print (completion_message env filename size_gb) w2"
    by blast
next
  fix e w'
  assume "generate_random_file env filename size_gb w = (Inl e, w')"
  with generate_random_file_stdout [of env filename size_gb w]
  show "stdout w' = stdout w" by simp
qed

theorem completion_line_witness:
  "(\<exists>w'. generate_random_file quiet_env ''out.bin'' (PyInt 0) empty_world = (Inr (), w')
        \<and> stdout w' = [''File '' @ [CHR 0x27] @ ''out.bin'' @ [CHR 0x27]
                          @ '' of 0GB has been created.''])
   \<and> (\<exists>w'. generate_random_file full_disk_env ''out.bin'' (PyFloat (1 / 2 ^ 28)) empty_world
             = (Inl OSError, w')
        \<and> files w' ''out.bin'' = Some [3, 10] \<and> stdout w' = [])"
proof -
  have ok: "generate_random_file quiet_env ''out.bin'' (PyInt 0) empty_world
      = (Inr (), snd (generate_random_file quiet_env ''out.bin'' (PyInt 0) empty_world))"
    by (simp add: generate_random_file_def py_open_def quiet_env_def write_loop_stop)
  have bad: "generate_random_file full_disk_env ''out.bin'' (PyFloat (1 / 2 ^ 28)) empty_world
      = (Inl OSError,
         snd (generate_random_file full_disk_env ''out.bin'' (PyFloat (1 / 2 ^ 28)) empty_world))"
    by (simp add: generate_random_file_def dbl_max_def py_open_def full_disk_env_def
        quiet_env_def empty_world_def write_loop.simps loop_body_def chunk_size_def
        os_urandom_def f_write_def Let_def append_file_def)
  have content: "files (snd (generate_random_file full_disk_env ''out.bin''
      (PyFloat (1 / 2 ^ 28)) empty_world)) ''out.bin'' = Some [3, 10]"
    by (simp add: generate_random_file_def dbl_max_def py_open_def full_disk_env_def
        quiet_env_def empty_world_def write_loop.simps loop_body_def chunk_size_def
        os_urandom_def f_write_def Let_def append_file_def upt_rec)
  from completion_line [of quiet_env "''out.bin''" "PyInt 0" empty_world] ok
  have "stdout (snd (generate_random_file quiet_env ''out.bin'' (PyInt 0) empty_world))
      = [''File '' @ [CHR 0x27] @ ''out.bin'' @ [CHR 0x27] @ '' of 0GB has been created.'']"
    by (simp add: empty_world_def str_int_def)
  with ok have first: "\<exists>w'. generate_random_file quiet_env ''out.bin'' (PyInt 0) empty_world
      = (Inr (), w')
    \<and> stdout w' = [''File '' @ [CHR 0x27] @ ''out.bin'' @ [CHR 0x27]
                          @ '' of 0GB has been created.'']"
    by (intro exI conjI)
  from completion_line [of full_disk_env "''out.bin''" "PyFloat (1 / 2 ^ 28)" empty_world] bad
  have "stdout (snd (generate_random_file full_disk_env ''out.bin''
      (PyFloat (1 / 2 ^ 28)) empty_world)) = []"
    by (simp add: empty_world_def)
  with bad content
  have "\<exists>w'. generate_random_file full_disk_env ''out.bin'' (PyFloat (1 / 2 ^ 28)) empty_world
             = (Inl OSError, w')
        \<and> files w' ''out.bin'' = Some [3, 10] \<and> stdout w' = []"
    by (intro exI conjI)
  with first show ?thesis by (rule conjI)
qed

text \<open>
  C9. Two calls with the same size that both return normally leave files of the same
  length, whatever the two environments (their entropy streams among them), the two
  worlds and the two paths are.
\<close>

theorem same_size_same_length:
  assumes "generate_random_file env1 filename1 size_gb w1 = (Inr (), w1')"
    and "generate_random_file env2 filename2 size_gb w2 = (Inr (), w2')"
  shows "\<exists>bs1 bs2. files w1' filename1 = Some bs1 \<and> files w2' filename2 = Some bs2
       \<and> length bs1 = length bs2"
proof -
  from generate_random_file_Inr [OF assms(1)]
  obtain target_bytes where t: "py_int (mul_gib size_gb) = Inr target_bytes"
    by blast
  from generate_random_file_content [OF assms(1) t]
    generate_random_file_content [OF assms(2) t]
  show ?thesis by simp
qed

theorem same_size_same_length_witness:
  "\<exists>w1 w2. generate_random_file quiet_env ''out.bin'' (PyFloat (1 / 2 ^ 29)) empty_world
              = (Inr (), w1)
     \<and> generate_random_file quiet_env ''out.bin'' (PyFloat (1 / 2 ^ 29)) w1 = (Inr (), w2)
     \<and> files w1 ''out.bin'' = Some [3, 10] \<and> files w2 ''out.bin'' = Some [17, 24]
     \<and> (\<exists>bs1 bs2. files w1 ''out.bin'' = Some bs1 \<and> files w2 ''out.bin'' = Some bs2
           \<and> length bs1 = length bs2)"
proof -
  have q: "open_ok quiet_env f" "close_ok quiet_env" "\<forall>k. write_fault quiet_env k = None" for f
    by (simp_all add: quiet_env_def)
  have t: "py_int (mul_gib (PyFloat (1 / 2 ^ 29))) = Inr 2" by (simp add: dbl_max_def)
  from generate_random_file_no_fault [OF t q]
  obtain w1 where run1:
    "generate_random_file quiet_env ''out.bin'' (PyFloat (1 / 2 ^ 29)) empty_world = (Inr (), w1)"
    by blast
  from generate_random_file_no_fault [OF t q]
  obtain w2 where run2:
    "generate_random_file quiet_env ''out.bin'' (PyFloat (1 / 2 ^ 29)) w1 = (Inr (), w2)"
    by blast
  have c1: "files w1 ''out.bin'' = Some [3, 10]"
    using generate_random_file_content [OF run1 t]
    by (simp add: quiet_env_def empty_world_def upt_rec)
  have "entropy_pos w1 = 2"
    using generate_random_file_entropy_pos [OF run1 t] by (simp add: empty_world_def)
  then have c2: "files w2 ''out.bin'' = Some [17, 24]"
    using generate_random_file_content [OF run2 t]
    by (simp add: quiet_env_def upt_rec)
  from same_size_same_length [OF run1 run2]
  have "\<exists>bs1 bs2. files w1 ''out.bin'' = Some bs1 \<and> files w2 ''out.bin'' = Some bs2
           \<and> length bs1 = length bs2" .
  with run1 run2 c1 c2 show ?thesis
    by (intro exI [of _ w1] exI [of _ w2] conjI)
qed

subsection \<open>Termination of the loop\<close>

lemma write_loop_final:
  assumes "write_loop env filename target_bytes bytes_written w = (Inr b', w')"
  shows "b' = max bytes_written target_bytes"
  using assms
proof (induction bytes_written w
    rule: write_loop_runs [where target_bytes = target_bytes and env = env
      and filename = filename])
  case (stop b w)
  then show ?case by (simp add: write_loop_stop)
next
  case (fail b w e w1)
  then show ?case by (simp add: write_loop_fail)
next
  case (step b w b1 w1)
  from step.prems write_loop_step [OF step.hyps(1,2)]
  have "write_loop env filename target_bytes b1 w1 = (Inr b', w')" by simp
  from step.IH [OF this] loop_body_progress [OF step.hyps(1,2)] step.hyps(1)
  show ?case by simp
qed

lemma fuel_bound_step:
  fixes r c :: int
  assumes "0 < c" and "0 < r"
  shows "nat ((r - min c r + c - 1) div c) + 1 \<le> nat ((r + c - 1) div c)"
proof (cases "c \<le> r")
  case True
  then have "min c r = c" by simp
  moreover have "(r + c - 1) div c = (r - 1) div c + 1"
    using div_add_self2 [of c "r - 1"] assms(1) by (simp add: algebra_simps)
  moreover have "0 \<le> (r - 1) div c"
    using assms by (simp add: pos_imp_zdiv_nonneg_iff)
  ultimately show ?thesis by simp
next
  case False
  then have m: "min c r = r" by simp
  have "(r + c - 1) div c = (r - 1) div c + 1"
    using div_add_self2 [of c "r - 1"] assms(1) by (simp add: algebra_simps)
  moreover have "(r - 1) div c = 0" using False assms by simp
  moreover have "(c - 1) div c = 0" using assms by simp
  ultimately show ?thesis by (simp add: m)
qed

lemma write_loop_fuel_enough:
  "\<exists>k \<le> nat ((target_bytes - bytes_written + chunk_size - 1) div chunk_size) + 1.
     write_loop_fuel k env filename target_bytes bytes_written w
       = Some (write_loop env filename target_bytes bytes_written w)"
proof (induction bytes_written w
    rule: write_loop_runs [where target_bytes = target_bytes and env = env
      and filename = filename])
  case (stop b w)
  then have "write_loop_fuel (Suc 0) env filename target_bytes b w
      = Some (write_loop env filename target_bytes b w)"
    by (simp add: write_loop_stop)
  then show ?case by (intro exI [of _ "Suc 0"]) simp
next
  case (fail b w e w1)
  then have "write_loop_fuel (Suc 0) env filename target_bytes b w
      = Some (write_loop env filename target_bytes b w)"
    by (simp add: write_loop_fail)
  then show ?case by (intro exI [of _ "Suc 0"]) simp
next
  case (step b w b1 w1)
  then obtain k where
    k: "k \<le> nat ((target_bytes - b1 + chunk_size - 1) div chunk_size) + 1"
    and run: "write_loop_fuel k env filename target_bytes b1 w1
      = Some (write_loop env filename target_bytes b1 w1)"
    by blast
  have b1: "b1 = b + min chunk_size (target_bytes - b)"
    by (rule loop_body_Inr(1) [OF step.hyps(1,2)])
  have "target_bytes - b1 + chunk_size - 1
      = target_bytes - b - min chunk_size (target_bytes - b) + chunk_size - 1"
    by (simp add: b1)
  with fuel_bound_step [OF chunk_size_pos, of "target_bytes - b"] step.hyps(1) k
  have "Suc k \<le> nat ((target_bytes - b + chunk_size - 1) div chunk_size) + 1"
    by simp
  moreover have "write_loop_fuel (Suc k) env filename target_bytes b w
      = Some (write_loop env filename target_bytes b w)"
    using step.hyps(1,2) run by (simp add: write_loop_step)
  ultimately show ?case by blast
qed

text \<open>
  C7. The loop terminates for every byte count. A pass entered with
  \<open>bytes_written < target_bytes\<close> asks for \<open>min chunk_size (target_bytes - bytes_written)\<close>
  bytes, which is at least 1, and when it does not raise it leaves \<open>bytes_written\<close>
  strictly larger and at most \<open>target_bytes\<close>. So the condition is evaluated at most
  \<open>\<lceil>(target_bytes - bytes_written) / chunk_size\<rceil> + 1\<close> times before the loop is left;
  it is left at once when \<open>target_bytes \<le> bytes_written\<close>; and a loop that is left
  normally has \<open>bytes_written = target_bytes\<close> (or its first value, if that was larger).
\<close>

theorem write_loop_terminates:
  "(bytes_written < target_bytes \<longrightarrow>
      1 \<le> min chunk_size (target_bytes - bytes_written)
      \<and> (\<forall>b' w'. loop_body env filename target_bytes bytes_written w = (Inr b', w') \<longrightarrow>
            b' = bytes_written + min chunk_size (target_bytes - bytes_written)
            \<and> bytes_written < b' \<and> b' \<le> target_bytes))
   \<and> (\<exists>k \<le> nat ((target_bytes - bytes_written + chunk_size - 1) div chunk_size) + 1.
         write_loop_fuel k env filename target_bytes bytes_written w
           = Some (write_loop env filename target_bytes bytes_written w))
   \<and> (target_bytes \<le> bytes_written \<longrightarrow>
         write_loop_fuel 1 env filename target_bytes bytes_written w
           = Some (Inr bytes_written, w))
   \<and> (\<forall>b' w'. write_loop env filename target_bytes bytes_written w = (Inr b', w') \<longrightarrow>
         b' = max bytes_written target_bytes)"
proof (intro conjI allI impI)
  assume "bytes_written < target_bytes"
  with chunk_size_pos show "1 \<le> min chunk_size (target_bytes - bytes_written)"
    by simp
next
  fix b' w'
  assume lt: "bytes_written < target_bytes"
    and body: "loop_body env filename target_bytes bytes_written w = (Inr b', w')"
  show "b' = bytes_written + min chunk_size (target_bytes - bytes_written)"
    by (rule loop_body_Inr(1) [OF lt body])
  show "bytes_written < b'" by (rule loop_body_progress(1) [OF lt body])
  show "b' \<le> target_bytes" by (rule loop_body_progress(2) [OF lt body])
next
  show "\<exists>k \<le> nat ((target_bytes - bytes_written + chunk_size - 1) div chunk_size) + 1.
         write_loop_fuel k env filename target_bytes bytes_written w
           = Some (write_loop env filename target_bytes bytes_written w)"
    by (rule write_loop_fuel_enough)
next
  assume "target_bytes \<le> bytes_written"
  then show "write_loop_fuel 1 env filename target_bytes bytes_written w
      = Some (Inr bytes_written, w)"
    by simp
next
  fix b' w'
  assume "write_loop env filename target_bytes bytes_written w = (Inr b', w')"
  then show "b' = max bytes_written target_bytes" by (rule write_loop_final)
qed

theorem write_loop_terminates_witness:
  "(0::int) < 4 \<and> 1 \<le> min chunk_size (4 - 0)
   \<and> (\<exists>k \<le> 2. write_loop_fuel k quiet_env ''out.bin'' 4 0 empty_world
                   = Some (write_loop quiet_env ''out.bin'' 4 0 empty_world))
   \<and> fst (write_loop quiet_env ''out.bin'' 4 0 empty_world) = Inr 4
   \<and> write_loop_fuel 1 quiet_env ''out.bin'' 0 0 empty_world = Some (Inr 0, empty_world)"
proof -
  note run = write_loop_terminates [where bytes_written = 0 and target_bytes = 4
      and env = quiet_env and filename = "''out.bin''" and w = empty_world]
  note idle = write_loop_terminates [where bytes_written = 0 and target_bytes = 0
      and env = quiet_env and filename = "''out.bin''" and w = empty_world]
  have lt: "(0::int) < 4" by simp
  from run lt have ask: "1 \<le> min chunk_size (4 - 0)" by simp
  have bound: "nat ((4 - 0 + chunk_size - 1) div chunk_size) + 1 = 2"
    by (simp add: chunk_size_def)
  from run have fuel: "\<exists>k \<le> 2. write_loop_fuel k quiet_env ''out.bin'' 4 0 empty_world
                   = Some (write_loop quiet_env ''out.bin'' 4 0 empty_world)"
    by (simp only: bound)
  have "\<forall>k. write_fault quiet_env k = None" by (simp add: quiet_env_def)
  from write_loop_no_fault [OF this]
  obtain b' w' where r: "write_loop quiet_env ''out.bin'' 4 0 empty_world = (Inr b', w')"
    by blast
  with run have "b' = 4" by simp
  with r have final: "fst (write_loop quiet_env ''out.bin'' 4 0 empty_world) = Inr 4"
    by simp
  from idle have "write_loop_fuel 1 quiet_env ''out.bin'' 0 0 empty_world
      = Some (Inr 0, empty_world)"
    by simp
  with lt ask fuel final show ?thesis by (intro conjI)
qed

subsection \<open>The invariant of the loop\<close>

lemma loop_body_files:
  assumes "bytes_written < target_bytes" and "files w filename = Some bs"
    and "loop_body env filename target_bytes bytes_written w = (r, w')"
  shows "\<exists>ys. files w' filename = Some (bs @ ys)
       \<and> int (length ys) \<le> min chunk_size (target_bytes - bytes_written)
       \<and> (\<forall>b'. r = Inr b' \<longrightarrow>
             int (length ys) = min chunk_size (target_bytes - bytes_written))"
  using assms chunk_size_pos
  by (auto simp: loop_body_def Let_def os_urandom_def f_write_def append_file_def
      split: if_splits option.splits)

lemma loop_reach_invariant:
  assumes "loop_reach env filename target_bytes s0 s"
    and "0 \<le> fst s0" and "fst s0 \<le> target_bytes"
    and "files (snd s0) filename = Some bs0" and "int (length bs0) = fst s0"
  shows "fst s0 \<le> fst s \<and> fst s \<le> target_bytes
       \<and> (\<exists>bs. files (snd s) filename = Some bs \<and> int (length bs) = fst s)"
  using assms
proof (induction rule: loop_reach.induct)
  case reach_start
  then show ?case by simp
next
  case (reach_step bytes_written w b' w')
  from reach_step.IH [OF reach_step.prems]
  obtain bs where le: "fst s0 \<le> bytes_written"
    and bs: "files w filename = Some bs" and len: "int (length bs) = bytes_written"
    by auto
  from loop_body_files [OF reach_step.hyps(2) bs reach_step.hyps(3)]
  obtain ys where ys: "files w' filename = Some (bs @ ys)"
    and n: "int (length ys) = min chunk_size (target_bytes - bytes_written)"
    by auto
  have b': "b' = bytes_written + min chunk_size (target_bytes - bytes_written)"
    by (rule loop_body_Inr(1) [OF reach_step.hyps(2,3)])
  from loop_body_progress [OF reach_step.hyps(2,3)] le ys n len b'
  show ?case by simp
qed

lemma write_loop_reach:
  assumes "write_loop env filename target_bytes bytes_written w = (Inr b', w')"
  shows "loop_reach env filename target_bytes (bytes_written, w) (b', w')"
proof -
  have "loop_reach env filename target_bytes s0 (b, w) \<Longrightarrow>
        write_loop env filename target_bytes b w = (Inr b', w') \<Longrightarrow>
        loop_reach env filename target_bytes s0 (b', w')" for s0 b w
  proof (induction b w
      rule: write_loop_runs [where target_bytes = target_bytes and env = env
        and filename = filename])
    case (stop b w)
    then show ?case by (simp add: write_loop_stop)
  next
    case (fail b w e w1)
    then show ?case by (simp add: write_loop_fail)
  next
    case (step b w b1 w1)
    from step.prems(1) step.hyps(1,2)
    have "loop_reach env filename target_bytes s0 (b1, w1)" by (rule reach_step)
    moreover from step.prems(2) write_loop_step [OF step.hyps(1,2)]
    have "write_loop env filename target_bytes b1 w1 = (Inr b', w')" by simp
    ultimately show ?case by (rule step.IH)
  qed
  from this [OF reach_start assms] show ?thesis .
qed

text \<open>
  C8. Take a non-negative \<open>target_bytes\<close> and the loop started with \<open>bytes_written = 0\<close>
  on the file just opened. Each time the condition is evaluated,
  \<open>0 \<le> bytes_written \<le> target_bytes\<close> and the file holds exactly \<open>bytes_written\<close> bytes.
  A pass through the body only appends to the file, never past \<open>target_bytes\<close> bytes (also
  when the write raises after a part of the chunk), and when it does not raise it leaves
  \<open>bytes_written\<close> no smaller and at the head of the loop again.
\<close>

theorem loop_invariant:
  assumes "0 \<le> target_bytes" and "files w0 filename = Some []"
    and "loop_reach env filename target_bytes (0, w0) (bytes_written, w)"
  shows "0 \<le> bytes_written \<and> bytes_written \<le> target_bytes
       \<and> (\<exists>bs. files w filename = Some bs \<and> int (length bs) = bytes_written
            \<and> (bytes_written < target_bytes \<longrightarrow>
                  (\<forall>r w'. loop_body env filename target_bytes bytes_written w = (r, w') \<longrightarrow>
                     (\<exists>ys. files w' filename = Some (bs @ ys)
                          \<and> int (length (bs @ ys)) \<le> target_bytes)
                     \<and> (\<forall>b'. r = Inr b' \<longrightarrow>
                           bytes_written \<le> b' \<and> b' \<le> target_bytes
                           \<and> loop_reach env filename target_bytes (0, w0) (b', w')))))"
proof -
  from loop_reach_invariant [OF assms(3), of "[]"] assms(1,2)
  obtain bs where range: "0 \<le> bytes_written" "bytes_written \<le> target_bytes"
    and bs: "files w filename = Some bs" and len: "int (length bs) = bytes_written"
    by auto
  have pass: "(\<exists>ys. files w' filename = Some (bs @ ys)
                 \<and> int (length (bs @ ys)) \<le> target_bytes)
            \<and> (\<forall>b'. r = Inr b' \<longrightarrow>
                  bytes_written \<le> b' \<and> b' \<le> target_bytes
                  \<and> loop_reach env filename target_bytes (0, w0) (b', w'))"
    if lt: "bytes_written < target_bytes"
      and body: "loop_body env filename target_bytes bytes_written w = (r, w')" for r w'
  proof (intro conjI allI impI)
    from loop_body_files [OF lt bs body]
    obtain ys where ys: "files w' filename = Some (bs @ ys)"
      and n: "int (length ys) \<le> min chunk_size (target_bytes - bytes_written)"
      by blast
    from n len have "int (length (bs @ ys)) \<le> target_bytes" by simp
    with ys show "\<exists>ys. files w' filename = Some (bs @ ys)
        \<and> int (length (bs @ ys)) \<le> target_bytes"
      by blast
  next
    fix b' assume "r = Inr b'"
    with body have b: "loop_body env filename target_bytes bytes_written w = (Inr b', w')"
      by simp
    from loop_body_progress [OF lt b]
    show "bytes_written \<le> b'" and "b' \<le> target_bytes" by simp_all
    from assms(3) lt b
    show "loop_reach env filename target_bytes (0, w0) (b', w')" by (rule reach_step)
  qed
  from range bs len pass show ?thesis by blast
qed

theorem loop_invariant_witness:
  "(0::int) \<le> 4
   \<and> files (empty_world\<lparr>files := [''out.bin'' \<mapsto> []]\<rparr>) ''out.bin'' = Some []
   \<and> loop_reach quiet_env ''out.bin'' 4 (0, empty_world\<lparr>files := [''out.bin'' \<mapsto> []]\<rparr>)
        (4, snd (loop_body quiet_env ''out.bin'' 4 0
                   (empty_world\<lparr>files := [''out.bin'' \<mapsto> []]\<rparr>)))
   \<and> (\<exists>bs. files (snd (loop_body quiet_env ''out.bin'' 4 0
                   (empty_world\<lparr>files := [''out.bin'' \<mapsto> []]\<rparr>))) ''out.bin'' = Some bs
          \<and> int (length bs) = 4)"
proof -
  let ?w0 = "empty_world\<lparr>files := [''out.bin'' \<mapsto> []]\<rparr>"
  let ?w1 = "snd (loop_body quiet_env ''out.bin'' 4 0 ?w0)"
  have le: "(0::int) \<le> 4" by simp
  have f0: "files ?w0 ''out.bin'' = Some []" by simp
  have body: "loop_body quiet_env ''out.bin'' 4 0 ?w0 = (Inr 4, ?w1)"
    by (simp add: loop_body_def Let_def chunk_size_def os_urandom_def f_write_def
        quiet_env_def empty_world_def)
  from loop_invariant [OF le f0 reach_start] body
  have reach: "loop_reach quiet_env ''out.bin'' 4 (0, ?w0) (4, ?w1)"
    by simp
  from loop_invariant [OF le f0 reach]
  have "\<exists>bs. files ?w1 ''out.bin'' = Some bs \<and> int (length bs) = 4"
    by blast
  with le f0 reach show ?thesis by (intro conjI)
qed

subsection \<open>Two concrete sizes\<close>

text \<open>
  The double nearest to \<open>0.000001\<close> is \<open>4722366482869645 / 2\<^sup>7\<^sup>2\<close>; it asks for 1073
  bytes. The module's own call asks for \<open>2\<^sup>3\<^sup>0\<close> bytes and prints the size as \<open>1\<close>.
\<close>

lemma micro_gib_target: "py_int (mul_gib (PyFloat (4722366482869645 / 2 ^ 72))) = Inr 1073"
proof -
  have "\<lfloor>4722366482869645 / 4398046511104 :: rat\<rfloor> = 1073"
    by (rule floor_unique) simp_all
  then show ?thesis by (simp add: dbl_max_def)
qed

lemma module_main_target: "py_int (mul_gib (PyInt 1)) = Inr 1073741824"
  by simp

lemma module_main_message:
  "completion_message env ''random_1gb_file.bin'' (PyInt 1)
   = ''File '' @ [CHR 0x27] @ ''random_1gb_file.bin'' @ [CHR 0x27] @ '' of 1GB has been created.''"
  by (simp add: completion_message_def str_int_def)

end
